theory Spec2Isabelle
  imports Complex_Main
begin

section \<open>The item store of \<open>app.py\<close>\<close>

text \<open>
  The service keeps one process-wide list, \<open>items_db\<close>, and five request handlers read or
  mutate it. The list is modelled as a value of type \<open>Item list\<close> that every handler takes
  as its first argument and returns, possibly changed, as the second component of its
  result. An exception raised by a handler is the \<open>Inl\<close> branch of its result.

  The \<open>price\<close> of an item is a Python float. The handlers only store and copy it, so it is
  modelled as a \<open>real\<close>; no arithmetic on prices occurs. Calls of the logger do not touch
  the list and are left out.
\<close>

subsection \<open>The pydantic models\<close>

record Item =
  id_num :: int
  name :: string
  description :: "string option"
  price :: real
  in_stock :: bool

record ItemCreate =
  name :: string
  description :: "string option"
  price :: real
  in_stock :: bool

text \<open>
  \<open>ItemCreate(name=..., description=..., price=..., in_stock=...)\<close>: the two fields with a
  default may be left out by the caller, which is the argument \<open>None\<close> here. A description
  that is given may itself be \<open>None\<close>.
\<close>

definition ItemCreate_new ::
  "string \<Rightarrow> string option option \<Rightarrow> real \<Rightarrow> bool option \<Rightarrow> ItemCreate" where
  "ItemCreate_new n d p s =
     \<lparr>name = n,
      description = (case d of None \<Rightarrow> None | Some v \<Rightarrow> v),
      price = p,
      in_stock = (case s of None \<Rightarrow> True | Some b \<Rightarrow> b)\<rparr>"

text \<open>\<open>Item(id=new_id, **item.dict())\<close>: every field of the body is passed on.\<close>

definition Item_of :: "int \<Rightarrow> ItemCreate \<Rightarrow> Item" where
  "Item_of new_id item =
     \<lparr>id_num = new_id,
      name = ItemCreate.name item,
      description = ItemCreate.description item,
      price = ItemCreate.price item,
      in_stock = ItemCreate.in_stock item\<rparr>"

subsection \<open>Errors and formatted messages\<close>

datatype error = HTTPException (status_code: nat) (detail: string) | IndexError

text \<open>Python's \<open>str\<close> on an integer, used by the f-strings of the handlers.\<close>

fun str_nat :: "nat \<Rightarrow> string" where
  "str_nat n =
     (if n < 10 then [''0123456789'' ! n]
      else str_nat (n div 10) @ [''0123456789'' ! (n mod 10)])"

declare str_nat.simps [simp del]

definition str_int :: "int \<Rightarrow> string" where
  "str_int i = (if i < 0 then CHR ''-'' # str_nat (nat (- i)) else str_nat (nat i))"

definition not_found :: "int \<Rightarrow> error" where
  "not_found item_id =
     HTTPException 404 (''Item with ID '' @ str_int item_id @ '' not found'')"

subsection \<open>The seed state\<close>

definition items_db :: "Item list" where
  "items_db =
     [\<lparr>id_num = 1, name = ''Laptop'', description = Some ''High-performance laptop'',
       price = 1200, in_stock = True\<rparr>,
      \<lparr>id_num = 2, name = ''Mouse'', description = Some ''Wireless mouse'',
       price = 25, in_stock = True\<rparr>,
      \<lparr>id_num = 3, name = ''Keyboard'', description = Some ''Mechanical keyboard'',
       price = 80, in_stock = False\<rparr>]"

subsection \<open>The loops of the handlers\<close>

text \<open>\<open>for item in items_db: if item.id == item_id: return item\<close>\<close>

fun find_item :: "Item list \<Rightarrow> int \<Rightarrow> Item option" where
  "find_item [] item_id = None"
| "find_item (item # rest) item_id =
     (if id_num item = item_id then Some item else find_item rest item_id)"

text \<open>
  \<open>for idx, item in enumerate(items_db): if item.id == item_id: ...\<close>: the position and the
  item of the first match, counting from \<open>idx\<close>.
\<close>

fun enumerate_find :: "nat \<Rightarrow> Item list \<Rightarrow> int \<Rightarrow> (nat \<times> Item) option" where
  "enumerate_find idx [] item_id = None"
| "enumerate_find idx (item # rest) item_id =
     (if id_num item = item_id then Some (idx, item)
      else enumerate_find (Suc idx) rest item_id)"

text \<open>\<open>max(xs, default=d)\<close>: the default is the result for the empty list only.\<close>

fun max_default :: "int list \<Rightarrow> int \<Rightarrow> int" where
  "max_default [] d = d"
| "max_default (x # xs) d = fold max xs x"

text \<open>\<open>xs[idx] = v\<close> and \<open>xs.pop(idx)\<close> for \<open>idx \<ge> 0\<close>; both raise out of range.\<close>

definition list_set :: "'a list \<Rightarrow> nat \<Rightarrow> 'a \<Rightarrow> error + 'a list" where
  "list_set xs idx v = (if idx < length xs then Inr (xs[idx := v]) else Inl IndexError)"

definition list_pop :: "'a list \<Rightarrow> nat \<Rightarrow> error + ('a \<times> 'a list)" where
  "list_pop xs idx =
     (if idx < length xs then Inr (xs ! idx, take idx xs @ drop (Suc idx) xs)
      else Inl IndexError)"

subsection \<open>The handlers\<close>

definition get_items :: "Item list \<Rightarrow> Item list \<times> Item list" where
  "get_items db = (db, db)"

definition get_item :: "Item list \<Rightarrow> int \<Rightarrow> (error + Item) \<times> Item list" where
  "get_item db item_id =
     (case find_item db item_id of
        Some item \<Rightarrow> (Inr item, db)
      | None \<Rightarrow> (Inl (not_found item_id), db))"

definition create_item :: "Item list \<Rightarrow> ItemCreate \<Rightarrow> Item \<times> Item list" where
  "create_item db item =
     (let new_id = max_default (map id_num db) 0 + 1;
          new_item = Item_of new_id item
      in (new_item, db @ [new_item]))"

definition update_item ::
  "Item list \<Rightarrow> int \<Rightarrow> ItemCreate \<Rightarrow> (error + Item) \<times> Item list" where
  "update_item db item_id item =
     (case enumerate_find 0 db item_id of
        Some (idx, existing_item) \<Rightarrow>
          (let updated_item = Item_of item_id item
           in case list_set db idx updated_item of
                Inr db' \<Rightarrow> (Inr updated_item, db')
              | Inl e \<Rightarrow> (Inl e, db))
      | None \<Rightarrow> (Inl (not_found item_id), db))"

definition delete_item ::
  "Item list \<Rightarrow> int \<Rightarrow> (error + string \<times> Item) \<times> Item list" where
  "delete_item db item_id =
     (case enumerate_find 0 db item_id of
        Some (idx, item) \<Rightarrow>
          (case list_pop db idx of
             Inr (deleted_item, db') \<Rightarrow>
               (Inr (''Item '' @ str_int item_id @ '' deleted successfully'', deleted_item),
                db')
           | Inl e \<Rightarrow> (Inl e, db))
      | None \<Rightarrow> (Inl (not_found item_id), db))"

subsection \<open>Sequences of requests\<close>

text \<open>
  The server answers one request after the other on the same list; a request that fails
  is answered with its error and the next one is served. \<open>run\<close> gives the list after a
  sequence of requests, \<open>trace\<close> the requests with their answers.
\<close>

datatype request =
  List | Get int | Create ItemCreate | Update int ItemCreate | Delete int

datatype response = Items "Item list" | One Item | Removed string Item

definition handle :: "Item list \<Rightarrow> request \<Rightarrow> (error + response) \<times> Item list" where
  "handle db r =
     (case r of
        List \<Rightarrow> (Inr (Items (fst (get_items db))), snd (get_items db))
      | Get i \<Rightarrow> (map_sum (\<lambda>e. e) One (fst (get_item db i)), snd (get_item db i))
      | Create x \<Rightarrow> (Inr (One (fst (create_item db x))), snd (create_item db x))
      | Update i x \<Rightarrow>
          (map_sum (\<lambda>e. e) One (fst (update_item db i x)), snd (update_item db i x))
      | Delete i \<Rightarrow>
          (map_sum (\<lambda>e. e) (\<lambda>(m, it). Removed m it) (fst (delete_item db i)),
           snd (delete_item db i)))"

fun run :: "Item list \<Rightarrow> request list \<Rightarrow> Item list" where
  "run db [] = db"
| "run db (r # rs) = run (snd (handle db r)) rs"

fun trace :: "Item list \<Rightarrow> request list \<Rightarrow> (request \<times> (error + response)) list" where
  "trace db [] = []"
| "trace db (r # rs) = (r, fst (handle db r)) # trace (snd (handle db r)) rs"

text \<open>A handler signalled \<open>NotFound\<close>: it raised the HTTP exception with status 404.\<close>

definition is_not_found :: "error + 'a \<Rightarrow> bool" where
  "is_not_found r =
     (case r of Inl (HTTPException code d) \<Rightarrow> code = 404 | _ \<Rightarrow> False)"

subsection \<open>Histories\<close>

text \<open>
  What a history of answered requests says about an id. These predicates are read off
  the answers alone; they are what the statements about earlier Creates and Deletes
  speak of, and are compared below with what the handlers do.
\<close>

text \<open>The id that an answered Create assigned, the id of the item that a Delete removed.\<close>

definition created_id :: "request \<times> (error + response) \<Rightarrow> int option" where
  "created_id ev =
     (case ev of (Create x, Inr (One it)) \<Rightarrow> Some (id_num it) | _ \<Rightarrow> None)"

definition deleted_id :: "request \<times> (error + response) \<Rightarrow> int option" where
  "deleted_id ev =
     (case ev of (Delete i, Inr (Removed m it)) \<Rightarrow> Some (id_num it) | _ \<Rightarrow> None)"

text \<open>Some Create assigned the id of an item that an earlier Delete had removed.\<close>

definition reuses_deleted_id :: "(request \<times> (error + response)) list \<Rightarrow> bool" where
  "reuses_deleted_id evs =
     (\<exists>k \<in> {..<length evs}. \<exists>j \<in> {..<k}.
        created_id (evs ! k) \<noteq> None \<and> created_id (evs ! k) = deleted_id (evs ! j))"

text \<open>No Delete of the history removed the id.\<close>

definition never_deleted :: "(request \<times> (error + response)) list \<Rightarrow> int \<Rightarrow> bool" where
  "never_deleted evs i = (\<forall>j \<in> {..<length evs}. deleted_id (evs ! j) \<noteq> Some i)"

text \<open>Some Create of the history produced the id and no later Delete removed it.\<close>

definition live_by_history :: "(request \<times> (error + response)) list \<Rightarrow> int \<Rightarrow> bool" where
  "live_by_history evs i =
     (\<exists>k \<in> {..<length evs}. created_id (evs ! k) = Some i \<and>
        (\<forall>j \<in> {..<length evs}. k < j \<longrightarrow> deleted_id (evs ! j) \<noteq> Some i))"

section \<open>Properties of the loops and handlers\<close>

lemma find_item_None: "find_item db i = None \<longleftrightarrow> i \<notin> id_num ` set db"
  by (induction db) auto

lemma find_item_Some: "find_item db i = Some it \<Longrightarrow> it \<in> set db \<and> id_num it = i"
  by (induction db) (auto split: if_splits)

lemma enumerate_find_None: "enumerate_find k db i = None \<longleftrightarrow> i \<notin> id_num ` set db"
  by (induction db arbitrary: k) auto

lemma enumerate_find_Some:
  "enumerate_find k db i = Some (idx, it) \<Longrightarrow>
     k \<le> idx \<and> idx - k < length db \<and> db ! (idx - k) = it \<and> id_num it = i \<and>
     (\<forall>j < idx - k. id_num (db ! j) \<noteq> i)"
proof (induction db arbitrary: k)
  case Nil
  then show ?case by simp
next
  case (Cons a db)
  show ?case
  proof (cases "id_num a = i")
    case True
    with Cons.prems show ?thesis by simp
  next
    case False
    with Cons.prems have e: "enumerate_find (Suc k) db i = Some (idx, it)" by simp
    from Cons.IH [OF e] have h: "Suc k \<le> idx" "idx - Suc k < length db"
      "db ! (idx - Suc k) = it" "id_num it = i" "\<forall>j < idx - Suc k. id_num (db ! j) \<noteq> i"
      by auto
    from h(1) have s: "idx - k = Suc (idx - Suc k)" by simp
    have "\<forall>j < idx - k. id_num ((a # db) ! j) \<noteq> i"
    proof (intro allI impI)
      fix j assume "j < idx - k"
      then show "id_num ((a # db) ! j) \<noteq> i"
        using False h(5) s by (cases j) auto
    qed
    with h s show ?thesis by simp
  qed
qed

lemma fold_max_Max: "fold max xs (x::int) = Max (set (x # xs))"
  by (simp only: Max.set_eq_fold)

lemma max_default_nonempty: "xs \<noteq> [] \<Longrightarrow> max_default xs d = Max (set xs)"
  by (cases xs) (simp_all add: fold_max_Max del: set_simps)

lemma max_default_ge: "x \<in> set xs \<Longrightarrow> x \<le> max_default xs d"
  by (cases "xs = []") (simp_all add: max_default_nonempty)



lemma first_match:
  "enumerate_find 0 db i = Some (idx, it) \<Longrightarrow>
     idx < length db \<and> db ! idx = it \<and> id_num it = i \<and> (\<forall>j < idx. id_num (db ! j) \<noteq> i)"
  using enumerate_find_Some [of 0 db i idx it] by simp

lemma first_match_ex:
  assumes "i \<in> id_num ` set db"
  shows "\<exists>idx it. enumerate_find 0 db i = Some (idx, it)"
proof (cases "enumerate_find 0 db i")
  case None
  with assms show ?thesis by (simp add: enumerate_find_None)
next
  case (Some p)
  then show ?thesis by (cases p) simp
qed

lemma get_item_absent:
  "i \<notin> id_num ` set db \<Longrightarrow> get_item db i = (Inl (not_found i), db)"
  using find_item_None [of db i] by (simp add: get_item_def)

lemma get_item_present:
  assumes "i \<in> id_num ` set db"
  shows "\<exists>it. get_item db i = (Inr it, db) \<and> it \<in> set db \<and> id_num it = i"
proof (cases "find_item db i")
  case None
  with assms show ?thesis by (simp add: find_item_None)
next
  case (Some it)
  with find_item_Some [OF Some] show ?thesis by (simp add: get_item_def)
qed

lemma update_item_absent:
  "i \<notin> id_num ` set db \<Longrightarrow> update_item db i x = (Inl (not_found i), db)"
  using enumerate_find_None [of 0 db i] by (simp add: update_item_def)

lemma update_item_present:
  assumes "i \<in> id_num ` set db"
  shows "\<exists>idx < length db. id_num (db ! idx) = i \<and> (\<forall>j < idx. id_num (db ! j) \<noteq> i) \<and>
           update_item db i x = (Inr (Item_of i x), db[idx := Item_of i x])"
proof -
  from first_match_ex [OF assms] obtain idx it
    where e: "enumerate_find 0 db i = Some (idx, it)" by blast
  from first_match [OF e] have h: "idx < length db" "db ! idx = it" "id_num it = i"
    "\<forall>j < idx. id_num (db ! j) \<noteq> i" by auto
  from e h(1) have "update_item db i x = (Inr (Item_of i x), db[idx := Item_of i x])"
    by (simp add: update_item_def list_set_def Let_def)
  with h show ?thesis by blast
qed

lemma delete_item_absent:
  "i \<notin> id_num ` set db \<Longrightarrow> delete_item db i = (Inl (not_found i), db)"
  using enumerate_find_None [of 0 db i] by (simp add: delete_item_def)

lemma delete_item_present:
  assumes "i \<in> id_num ` set db"
  shows "\<exists>idx < length db. id_num (db ! idx) = i \<and> (\<forall>j < idx. id_num (db ! j) \<noteq> i) \<and>
           delete_item db i =
             (Inr (''Item '' @ str_int i @ '' deleted successfully'', db ! idx),
              take idx db @ drop (Suc idx) db)"
proof -
  from first_match_ex [OF assms] obtain idx it
    where e: "enumerate_find 0 db i = Some (idx, it)" by blast
  from first_match [OF e] have h: "idx < length db" "db ! idx = it" "id_num it = i"
    "\<forall>j < idx. id_num (db ! j) \<noteq> i" by auto
  from e h(1) have "delete_item db i =
      (Inr (''Item '' @ str_int i @ '' deleted successfully'', db ! idx),
       take idx db @ drop (Suc idx) db)"
    by (simp add: delete_item_def list_pop_def)
  with h show ?thesis by blast
qed

lemma is_not_found_simps:
  "is_not_found (Inl (not_found i))" "\<not> is_not_found (Inr v)"
  by (simp_all add: is_not_found_def not_found_def)

lemma ids_update_item: "map id_num (snd (update_item db i x)) = map id_num db"
proof (cases "i \<in> id_num ` set db")
  case False
  then show ?thesis by (simp add: update_item_absent)
next
  case True
  from update_item_present [OF True, of x] obtain idx where
    h: "idx < length db" "id_num (db ! idx) = i"
       "update_item db i x = (Inr (Item_of i x), db[idx := Item_of i x])" by blast
  have "map id_num (db[idx := Item_of i x]) = (map id_num db)[idx := i]"
    by (simp add: map_update Item_of_def)
  also have "\<dots> = map id_num db"
    using h(1,2) by (metis list_update_id nth_map)
  finally show ?thesis using h(3) by simp
qed

lemma ids_create_item:
  "map id_num (snd (create_item db x)) = map id_num db @ [max_default (map id_num db) 0 + 1]"
  by (simp add: create_item_def Let_def Item_of_def)

lemma new_id_fresh: "max_default (map id_num db) 0 + 1 \<notin> id_num ` set db"
proof
  assume "max_default (map id_num db) 0 + 1 \<in> id_num ` set db"
  then have "max_default (map id_num db) 0 + 1 \<in> set (map id_num db)" by simp
  from max_default_ge [OF this, of 0] show False by simp
qed

lemma ids_delete_item:
  assumes "distinct (map id_num db)"
  shows "distinct (map id_num (snd (delete_item db i))) \<and>
         id_num ` set (snd (delete_item db i)) = id_num ` set db - {i}"
proof (cases "i \<in> id_num ` set db")
  case False
  with assms show ?thesis by (simp add: delete_item_absent)
next
  case True
  from delete_item_present [OF True] obtain idx where
    h: "idx < length db" "id_num (db ! idx) = i"
       "snd (delete_item db i) = take idx db @ drop (Suc idx) db" by force
  have split: "map id_num db =
      map id_num (take idx db) @ i # map id_num (drop (Suc idx) db)"
    using h(1,2) by (metis id_take_nth_drop list.simps(9) map_append)
  from assms have d: "distinct (map id_num (take idx db) @ i # map id_num (drop (Suc idx) db))"
    by (simp only: split [symmetric])
  have s: "id_num ` set db = set (map id_num (take idx db)) \<union> {i} \<union> set (map id_num (drop (Suc idx) db))"
    using arg_cong [OF split, of set] by auto
  from d have "distinct (map id_num (take idx db @ drop (Suc idx) db))" by auto
  moreover from d have "id_num ` set (take idx db @ drop (Suc idx) db) = id_num ` set db - {i}"
    unfolding s by auto
  ultimately show ?thesis by (simp only: h(3)) 
qed

lemma handle_distinct:
  assumes "distinct (map id_num db)"
  shows "distinct (map id_num (snd (handle db r)))"
proof (cases r)
  case List
  with assms show ?thesis by (simp add: handle_def get_items_def)
next
  case (Get i)
  with assms show ?thesis by (simp add: handle_def get_item_def split: option.splits)
next
  case (Create x)
  have "distinct (map id_num (snd (create_item db x)))"
    using assms new_id_fresh [of db] by (simp only: ids_create_item) simp
  with Create show ?thesis by (simp add: handle_def)
next
  case (Update i x)
  with assms show ?thesis by (simp add: handle_def ids_update_item)
next
  case (Delete i)
  with ids_delete_item [OF assms, of i] show ?thesis by (simp add: handle_def)
qed

lemma run_distinct:
  "distinct (map id_num db) \<Longrightarrow> distinct (map id_num (run db rs))"
  by (induction rs arbitrary: db) (simp_all add: handle_distinct)

lemma items_db_distinct: "distinct (map id_num items_db)"
  by (simp add: items_db_def)

lemma find_item_append:
  "find_item (xs @ ys) i = (case find_item xs i of None \<Rightarrow> find_item ys i | Some v \<Rightarrow> Some v)"
  by (induction xs) auto

lemma delete_item_twice:
  assumes "distinct (map id_num db)"
  shows "delete_item (snd (delete_item db i)) i = (Inl (not_found i), snd (delete_item db i))"
proof -
  from ids_delete_item [OF assms, of i]
  have "i \<notin> id_num ` set (snd (delete_item db i))" by simp
  then show ?thesis by (rule delete_item_absent)
qed

lemma handle_names:
  assumes "\<forall>it \<in> set db. Item.name it \<noteq> []"
    and "\<forall>i x. (r = Create x \<or> r = Update i x) \<longrightarrow> ItemCreate.name x \<noteq> []"
  shows "\<forall>it \<in> set (snd (handle db r)). Item.name it \<noteq> []"
proof (cases r)
  case List
  with assms(1) show ?thesis by (simp add: handle_def get_items_def)
next
  case (Get i)
  with assms(1) show ?thesis by (simp add: handle_def get_item_def split: option.splits)
next
  case (Create x)
  with assms(2) have "ItemCreate.name x \<noteq> []" by blast
  with assms(1) Create show ?thesis
    by (simp add: handle_def create_item_def Let_def Item_of_def)
next
  case (Update i x)
  with assms(2) have n: "Item.name (Item_of i x) \<noteq> []" by (simp add: Item_of_def)
  show ?thesis
  proof (cases "i \<in> id_num ` set db")
    case False
    with assms(1) Update show ?thesis by (simp add: handle_def update_item_absent)
  next
    case True
    from update_item_present [OF True, of x] obtain idx where
      "update_item db i x = (Inr (Item_of i x), db[idx := Item_of i x])" by blast
    then have "set (snd (handle db r)) \<subseteq> insert (Item_of i x) (set db)"
      using Update by (simp add: handle_def set_update_subset_insert)
    with assms(1) n show ?thesis by blast
  qed
next
  case (Delete i)
  show ?thesis
  proof (cases "i \<in> id_num ` set db")
    case False
    with assms(1) Delete show ?thesis by (simp add: handle_def delete_item_absent)
  next
    case True
    from delete_item_present [OF True] obtain idx where
      "snd (delete_item db i) = take idx db @ drop (Suc idx) db" by force
    then have "set (snd (handle db r)) \<subseteq> set db"
      using Delete set_take_subset [of idx db] set_drop_subset [of "Suc idx" db]
      by (simp add: handle_def)
    with assms(1) show ?thesis by blast
  qed
qed

lemma run_names:
  "\<forall>it \<in> set db. Item.name it \<noteq> [] \<Longrightarrow>
   \<forall>r \<in> set rs. \<forall>i x. (r = Create x \<or> r = Update i x) \<longrightarrow> ItemCreate.name x \<noteq> [] \<Longrightarrow>
   \<forall>it \<in> set (run db rs). Item.name it \<noteq> []"
proof (induction rs arbitrary: db)
  case Nil
  then show ?case by simp
next
  case (Cons r rs)
  from Cons.prems(2) have
    a: "\<forall>i x. (r = Create x \<or> r = Update i x) \<longrightarrow> ItemCreate.name x \<noteq> []" and
    b: "\<forall>r \<in> set rs. \<forall>i x. (r = Create x \<or> r = Update i x) \<longrightarrow> ItemCreate.name x \<noteq> []"
    by simp_all
  from handle_names [OF Cons.prems(1) a]
  have "\<forall>it \<in> set (snd (handle db r)). Item.name it \<noteq> []" .
  from Cons.IH [OF this b] show ?case by simp
qed

lemma length_trace: "length (trace db rs) = length rs"
  by (induction rs arbitrary: db) simp_all

lemma trace_nth:
  "k < length rs \<Longrightarrow>
   trace db rs ! k = (rs ! k, fst (handle (run db (take k rs)) (rs ! k)))"
proof (induction rs arbitrary: db k)
  case Nil
  then show ?case by simp
next
  case (Cons r rs)
  then show ?case by (cases k) simp_all
qed

lemma created_id_handle:
  "created_id (r, fst (handle db r)) =
     (case r of Create x \<Rightarrow> Some (max_default (map id_num db) 0 + 1) | _ \<Rightarrow> None)"
  by (cases r) (simp_all add: created_id_def handle_def create_item_def Let_def Item_of_def)

lemma deleted_id_handle:
  "deleted_id (r, fst (handle db r)) =
     (case r of Delete i \<Rightarrow> if i \<in> id_num ` set db then Some i else None | _ \<Rightarrow> None)"
proof (cases r)
  case (Delete i)
  show ?thesis
  proof (cases "i \<in> id_num ` set db")
    case True
    from delete_item_present [OF True] obtain idx where
      "id_num (db ! idx) = i"
      "delete_item db i =
         (Inr (''Item '' @ str_int i @ '' deleted successfully'', db ! idx),
          take idx db @ drop (Suc idx) db)" by blast
    with True Delete show ?thesis by (simp add: deleted_id_def handle_def)
  next
    case False
    with Delete show ?thesis by (simp add: deleted_id_def handle_def delete_item_absent)
  qed
qed (simp_all add: deleted_id_def)

lemma never_deleted_Nil: "never_deleted [] i"
  by (simp add: never_deleted_def)

lemma live_by_history_Nil: "\<not> live_by_history [] i"
  by (simp add: live_by_history_def)

lemma never_deleted_Cons:
  "never_deleted (ev # evs) i \<longleftrightarrow> deleted_id ev \<noteq> Some i \<and> never_deleted evs i"
  by (simp add: never_deleted_def Ball_def All_less_Suc2)

lemma live_by_history_Cons:
  "live_by_history (ev # evs) i \<longleftrightarrow>
     (created_id ev = Some i \<and> never_deleted evs i) \<or> live_by_history evs i"
  by (simp add: live_by_history_def never_deleted_def Ball_def Bex_def
      All_less_Suc2 Ex_less_Suc2)

lemma ids_handle:
  assumes "distinct (map id_num db)"
  shows "i \<in> id_num ` set (snd (handle db r)) \<longleftrightarrow>
           (i \<in> id_num ` set db \<and> deleted_id (r, fst (handle db r)) \<noteq> Some i)
           \<or> created_id (r, fst (handle db r)) = Some i"
proof (cases r)
  case List
  then show ?thesis
    by (simp add: created_id_handle deleted_id_handle) (simp add: handle_def get_items_def)
next
  case (Get j)
  then show ?thesis
    by (simp add: created_id_handle deleted_id_handle)
       (simp add: handle_def get_item_def split: option.splits)
next
  case (Create x)
  have "id_num ` set (snd (create_item db x)) =
      insert (max_default (map id_num db) 0 + 1) (id_num ` set db)"
    using arg_cong [OF ids_create_item [of db x], of set] by simp
  with Create show ?thesis
    by (simp add: created_id_handle deleted_id_handle) (auto simp: handle_def)
next
  case (Update j x)
  have "id_num ` set (snd (update_item db j x)) = id_num ` set db"
    using arg_cong [OF ids_update_item [of db j x], of set] by simp
  with Update show ?thesis
    by (simp add: created_id_handle deleted_id_handle) (simp add: handle_def)
next
  case (Delete j)
  from ids_delete_item [OF assms, of j]
  have "id_num ` set (snd (delete_item db j)) = id_num ` set db - {j}" by simp
  with Delete show ?thesis
    by (simp add: created_id_handle deleted_id_handle) (auto simp: handle_def)
qed

lemma present_iff_history:
  "distinct (map id_num db) \<Longrightarrow>
   i \<in> id_num ` set (run db rs) \<longleftrightarrow>
     (i \<in> id_num ` set db \<and> never_deleted (trace db rs) i) \<or> live_by_history (trace db rs) i"
proof (induction rs arbitrary: db)
  case Nil
  then show ?case by (simp add: never_deleted_Nil live_by_history_Nil)
next
  case (Cons r rs)
  let ?db1 = "snd (handle db r)"
  let ?ev = "(r, fst (handle db r))"
  from handle_distinct [OF Cons.prems] have d: "distinct (map id_num ?db1)" .
  from Cons.IH [OF d] have
    "i \<in> id_num ` set (run ?db1 rs) \<longleftrightarrow>
       (i \<in> id_num ` set ?db1 \<and> never_deleted (trace ?db1 rs) i)
       \<or> live_by_history (trace ?db1 rs) i" .
  also have "i \<in> id_num ` set ?db1 \<longleftrightarrow>
      (i \<in> id_num ` set db \<and> deleted_id ?ev \<noteq> Some i) \<or> created_id ?ev = Some i"
    by (rule ids_handle [OF Cons.prems])
  finally show ?case
    by (simp only: run.simps trace.simps never_deleted_Cons live_by_history_Cons) blast
qed

lemma get_item_returns_iff:
  "(\<exists>it. fst (get_item db i) = Inr it \<and> id_num it = i) \<longleftrightarrow> i \<in> id_num ` set db"
proof (cases "i \<in> id_num ` set db")
  case True
  from get_item_present [OF True] show ?thesis using True by auto
next
  case False
  then show ?thesis by (simp add: get_item_absent)
qed

section \<open>The claims\<close>

text \<open>
  C1. For every store state, Create assigns the new item the id \<open>max(existing ids) + 1\<close>,
  where the maximum of no ids is 0, copies the supplied fields, sets \<open>in_stock\<close> to true
  when it is left out, appends the new item at the end of the list and returns it.
  Creating into the empty store yields id 1.
\<close>

theorem create_item_assigns_next_id:
  "fst (create_item db item) =
     \<lparr>id_num = (if db = [] then 0 else Max (id_num ` set db)) + 1,
      name = ItemCreate.name item,
      description = ItemCreate.description item,
      price = ItemCreate.price item,
      in_stock = ItemCreate.in_stock item\<rparr>
   \<and> snd (create_item db item) = db @ [fst (create_item db item)]
   \<and> ItemCreate.in_stock (ItemCreate_new n d p None) = True
   \<and> ItemCreate.in_stock (ItemCreate_new n d p (Some b)) = b
   \<and> Item.in_stock (fst (create_item db (ItemCreate_new n d p None))) = True
   \<and> id_num (fst (create_item [] item)) = 1"
proof -
  have m: "max_default (map id_num db) 0 = (if db = [] then 0 else Max (id_num ` set db))"
    by (cases "db = []") (simp_all add: max_default_nonempty)
  have a: "fst (create_item db item) =
     \<lparr>id_num = (if db = [] then 0 else Max (id_num ` set db)) + 1,
      name = ItemCreate.name item,
      description = ItemCreate.description item,
      price = ItemCreate.price item,
      in_stock = ItemCreate.in_stock item\<rparr>"
    by (simp only: create_item_def Let_def fst_conv Item_of_def m)
  have b: "snd (create_item db item) = db @ [fst (create_item db item)]"
    by (simp add: create_item_def Let_def)
  have c: "ItemCreate.in_stock (ItemCreate_new n d p None) = True"
    "ItemCreate.in_stock (ItemCreate_new n d p (Some b)) = b"
    by (simp_all add: ItemCreate_new_def)
  have d: "Item.in_stock (fst (create_item db (ItemCreate_new n d p None))) = True"
    by (simp add: create_item_def Let_def Item_of_def ItemCreate_new_def)
  have e: "id_num (fst (create_item [] item)) = 1"
    by (simp add: create_item_def Let_def Item_of_def)
  from a b c d e show ?thesis by blast
qed

theorem create_item_assigns_next_id_witness:
  "fst (create_item items_db (ItemCreate_new ''Monitor'' None 350 None)) =
     \<lparr>id_num = 4, name = ''Monitor'', description = None, price = 350, in_stock = True\<rparr>
   \<and> length (snd (create_item items_db (ItemCreate_new ''Monitor'' None 350 None))) = 4"
  using create_item_assigns_next_id [of items_db "ItemCreate_new ''Monitor'' None 350 None"]
  by (simp add: items_db_def ItemCreate_new_def)

text \<open>
  C2. Starting from the three seed items, after every sequence of requests the ids of the
  stored items are pairwise distinct, and so are the ids of the items that List returns.
\<close>

theorem ids_unique:
  "distinct (map id_num (run items_db rs))
   \<and> distinct (map id_num (fst (get_items (run items_db rs))))"
  using run_distinct [OF items_db_distinct, of rs] by (simp add: get_items_def)

text \<open>
  C3. Get, Update and Delete signal NotFound exactly when no stored item has the id; they
  raise nothing else; when NotFound is signalled the store is returned unchanged; and in
  every state reached from the seed a Delete that follows a Delete of the same id
  signals NotFound.
\<close>

theorem not_found_iff_absent:
  "(is_not_found (fst (get_item db i)) \<longleftrightarrow> i \<notin> id_num ` set db)
   \<and> (is_not_found (fst (update_item db i x)) \<longleftrightarrow> i \<notin> id_num ` set db)
   \<and> (is_not_found (fst (delete_item db i)) \<longleftrightarrow> i \<notin> id_num ` set db)
   \<and> (isl (fst (get_item db i)) \<longleftrightarrow> i \<notin> id_num ` set db)
   \<and> (isl (fst (update_item db i x)) \<longleftrightarrow> i \<notin> id_num ` set db)
   \<and> (isl (fst (delete_item db i)) \<longleftrightarrow> i \<notin> id_num ` set db)
   \<and> (is_not_found (fst (get_item db i)) \<longrightarrow> snd (get_item db i) = db)
   \<and> (is_not_found (fst (update_item db i x)) \<longrightarrow> snd (update_item db i x) = db)
   \<and> (is_not_found (fst (delete_item db i)) \<longrightarrow> snd (delete_item db i) = db)
   \<and> is_not_found (fst (delete_item (snd (delete_item (run items_db rs) i)) i))"
proof -
  have g: "(is_not_found (fst (get_item db i)) \<longleftrightarrow> i \<notin> id_num ` set db)
      \<and> (isl (fst (get_item db i)) \<longleftrightarrow> i \<notin> id_num ` set db)
      \<and> snd (get_item db i) = db"
  proof (cases "i \<in> id_num ` set db")
    case True
    from get_item_present [OF True] obtain it where "get_item db i = (Inr it, db)" by blast
    with True show ?thesis by (simp add: is_not_found_simps)
  next
    case False
    then show ?thesis by (simp add: get_item_absent is_not_found_simps)
  qed
  have u: "(is_not_found (fst (update_item db i x)) \<longleftrightarrow> i \<notin> id_num ` set db)
      \<and> (isl (fst (update_item db i x)) \<longleftrightarrow> i \<notin> id_num ` set db)
      \<and> (i \<notin> id_num ` set db \<longrightarrow> snd (update_item db i x) = db)"
  proof (cases "i \<in> id_num ` set db")
    case True
    from update_item_present [OF True, of x] obtain idx where
      "update_item db i x = (Inr (Item_of i x), db[idx := Item_of i x])" by blast
    with True show ?thesis by (simp add: is_not_found_simps)
  next
    case False
    then show ?thesis by (simp add: update_item_absent is_not_found_simps)
  qed
  have d: "(is_not_found (fst (delete_item db i)) \<longleftrightarrow> i \<notin> id_num ` set db)
      \<and> (isl (fst (delete_item db i)) \<longleftrightarrow> i \<notin> id_num ` set db)
      \<and> (i \<notin> id_num ` set db \<longrightarrow> snd (delete_item db i) = db)"
  proof (cases "i \<in> id_num ` set db")
    case True
    from delete_item_present [OF True] obtain idx where
      "delete_item db i =
         (Inr (''Item '' @ str_int i @ '' deleted successfully'', db ! idx),
          take idx db @ drop (Suc idx) db)" by blast
    with True show ?thesis by (simp add: is_not_found_simps)
  next
    case False
    then show ?thesis by (simp add: delete_item_absent is_not_found_simps)
  qed
  have t: "is_not_found (fst (delete_item (snd (delete_item (run items_db rs) i)) i))"
    using delete_item_twice [OF run_distinct [OF items_db_distinct], of rs i]
    by (simp add: is_not_found_simps)
  from g u d t show ?thesis by blast
qed

theorem not_found_iff_absent_witness:
  "is_not_found (fst (get_item items_db 999)) \<and> snd (get_item items_db 999) = items_db
   \<and> is_not_found (fst (update_item items_db 999 (ItemCreate_new ''Ghost Item'' None 100 None)))
   \<and> snd (update_item items_db 999 (ItemCreate_new ''Ghost Item'' None 100 None)) = items_db
   \<and> is_not_found (fst (delete_item items_db 999)) \<and> snd (delete_item items_db 999) = items_db
   \<and> \<not> is_not_found (fst (delete_item items_db 1))
   \<and> is_not_found (fst (delete_item (snd (delete_item items_db 1)) 1))"
proof -
  have a: "(999::int) \<notin> id_num ` set items_db" "(1::int) \<in> id_num ` set items_db"
    by (simp_all add: items_db_def)
  have r: "run items_db [] = items_db" by simp
  show ?thesis
    using not_found_iff_absent [of items_db 999 "ItemCreate_new ''Ghost Item'' None 100 None" "[]"]
      not_found_iff_absent [of items_db 1 "ItemCreate_new ''Ghost Item'' None 100 None" "[]"]
      a unfolding r by blast
qed

text \<open>
  C4. For every store that holds an item with the given id, Update puts a new item, built
  from the id and the supplied fields alone, at the position of the first item with that
  id; the list keeps its length and every other position keeps its item; the new item is
  what Update returns. A body without a description gives the description \<open>None\<close> and a
  body without \<open>in_stock\<close> gives \<open>in_stock = True\<close>, whatever the replaced item held.
\<close>

theorem update_item_replaces_in_place:
  assumes "i \<in> id_num ` set db"
  shows "(\<exists>idx < length db.
           id_num (db ! idx) = i \<and> (\<forall>j < idx. id_num (db ! j) \<noteq> i)
           \<and> fst (update_item db i x) =
               Inr \<lparr>id_num = i,
                    name = ItemCreate.name x,
                    description = ItemCreate.description x,
                    price = ItemCreate.price x,
                    in_stock = ItemCreate.in_stock x\<rparr>
           \<and> snd (update_item db i x) =
               db[idx := \<lparr>id_num = i,
                          name = ItemCreate.name x,
                          description = ItemCreate.description x,
                          price = ItemCreate.price x,
                          in_stock = ItemCreate.in_stock x\<rparr>]
           \<and> length (snd (update_item db i x)) = length db
           \<and> (\<forall>j < length db. j \<noteq> idx \<longrightarrow> snd (update_item db i x) ! j = db ! j))
         \<and> ItemCreate.description (ItemCreate_new n None p s) = None
         \<and> ItemCreate.in_stock (ItemCreate_new n d p None) = True
         \<and> fst (update_item db i (ItemCreate_new n None p None)) =
             Inr \<lparr>id_num = i, name = n, description = None, price = p, in_stock = True\<rparr>"
proof -
  have u: "\<And>y. \<exists>idx < length db.
      id_num (db ! idx) = i \<and> (\<forall>j < idx. id_num (db ! j) \<noteq> i)
      \<and> fst (update_item db i y) = Inr (Item_of i y)
      \<and> snd (update_item db i y) = db[idx := Item_of i y]
      \<and> length (snd (update_item db i y)) = length db
      \<and> (\<forall>j < length db. j \<noteq> idx \<longrightarrow> snd (update_item db i y) ! j = db ! j)"
  proof -
    fix y
    from update_item_present [OF assms, of y] obtain idx where
      h: "idx < length db" "id_num (db ! idx) = i" "\<forall>j < idx. id_num (db ! j) \<noteq> i"
         "update_item db i y = (Inr (Item_of i y), db[idx := Item_of i y])" by blast
    have "fst (update_item db i y) = Inr (Item_of i y)"
      "snd (update_item db i y) = db[idx := Item_of i y]"
      "length (snd (update_item db i y)) = length db"
      "\<forall>j < length db. j \<noteq> idx \<longrightarrow> snd (update_item db i y) ! j = db ! j"
      using h(4) by simp_all
    with h(1,2,3) show "\<exists>idx < length db.
      id_num (db ! idx) = i \<and> (\<forall>j < idx. id_num (db ! j) \<noteq> i)
      \<and> fst (update_item db i y) = Inr (Item_of i y)
      \<and> snd (update_item db i y) = db[idx := Item_of i y]
      \<and> length (snd (update_item db i y)) = length db
      \<and> (\<forall>j < length db. j \<noteq> idx \<longrightarrow> snd (update_item db i y) ! j = db ! j)"
      by blast
  qed
  have a: "\<exists>idx < length db.
           id_num (db ! idx) = i \<and> (\<forall>j < idx. id_num (db ! j) \<noteq> i)
           \<and> fst (update_item db i x) =
               Inr \<lparr>id_num = i,
                    name = ItemCreate.name x,
                    description = ItemCreate.description x,
                    price = ItemCreate.price x,
                    in_stock = ItemCreate.in_stock x\<rparr>
           \<and> snd (update_item db i x) =
               db[idx := \<lparr>id_num = i,
                          name = ItemCreate.name x,
                          description = ItemCreate.description x,
                          price = ItemCreate.price x,
                          in_stock = ItemCreate.in_stock x\<rparr>]
           \<and> length (snd (update_item db i x)) = length db
           \<and> (\<forall>j < length db. j \<noteq> idx \<longrightarrow> snd (update_item db i x) ! j = db ! j)"
    using u [of x] unfolding Item_of_def .
  have b: "ItemCreate.description (ItemCreate_new n None p s) = None"
    "ItemCreate.in_stock (ItemCreate_new n d p None) = True"
    by (simp_all add: ItemCreate_new_def)
  from u [of "ItemCreate_new n None p None"]
  have c: "fst (update_item db i (ItemCreate_new n None p None)) =
             Inr \<lparr>id_num = i, name = n, description = None, price = p, in_stock = True\<rparr>"
    by (auto simp: Item_of_def ItemCreate_new_def)
  from a b c show ?thesis by blast
qed

theorem update_item_replaces_in_place_witness:
  "(1::int) \<in> id_num ` set items_db
   \<and> update_item items_db 1 (ItemCreate_new ''Updated Laptop'' None 1500 (Some False)) =
      (Inr \<lparr>id_num = 1, name = ''Updated Laptop'', description = None, price = 1500,
            in_stock = False\<rparr>,
       [\<lparr>id_num = 1, name = ''Updated Laptop'', description = None, price = 1500,
         in_stock = False\<rparr>,
        \<lparr>id_num = 2, name = ''Mouse'', description = Some ''Wireless mouse'',
         price = 25, in_stock = True\<rparr>,
        \<lparr>id_num = 3, name = ''Keyboard'', description = Some ''Mechanical keyboard'',
         price = 80, in_stock = False\<rparr>])"
proof -
  have m: "(1::int) \<in> id_num ` set items_db" by (simp add: items_db_def)
  let ?x = "ItemCreate_new ''Updated Laptop'' None 1500 (Some False)"
  let ?it = "\<lparr>id_num = 1, name = ''Updated Laptop'', description = None, price = 1500,
              in_stock = False\<rparr>"
  have x: "ItemCreate.name ?x = ''Updated Laptop''" "ItemCreate.description ?x = None"
    "ItemCreate.price ?x = 1500" "ItemCreate.in_stock ?x = False"
    by (simp_all add: ItemCreate_new_def)
  from update_item_replaces_in_place
    [OF m, where x = ?x and n = "''n''" and p = 0 and s = None and d = None]
  have "\<exists>idx < length items_db. (\<forall>j < idx. id_num (items_db ! j) \<noteq> 1)
      \<and> fst (update_item items_db 1 ?x) = Inr ?it
      \<and> snd (update_item items_db 1 ?x) = items_db[idx := ?it]"
    unfolding x by blast
  then obtain idx where h: "idx < length items_db" "\<forall>j < idx. id_num (items_db ! j) \<noteq> 1"
    "fst (update_item items_db 1 ?x) = Inr ?it"
    "snd (update_item items_db 1 ?x) = items_db[idx := ?it]"
    by blast
  have "idx = 0"
  proof (rule ccontr)
    assume "idx \<noteq> 0"
    then have "0 < idx" by simp
    with h(2) have "id_num (items_db ! 0) \<noteq> 1" by blast
    then show False by (simp add: items_db_def)
  qed
  with h(3,4) m show ?thesis by (simp add: items_db_def prod_eq_iff)
qed

text \<open>
  C5, as amended. In every sequence of requests from the seed state, the id that a Create
  assigns is \<open>max + 1\<close> of the ids stored at that moment: it is greater than the id of
  every stored item and is the id of none of them. So the id of a deleted item is assigned
  again only when every item left in the store has a smaller id.
\<close>

theorem created_id_exceeds_store:
  assumes "k < length rs" and "created_id (trace items_db rs ! k) = Some d"
  shows "(\<forall>it \<in> set (run items_db (take k rs)). id_num it < d)
         \<and> d = max_default (map id_num (run items_db (take k rs))) 0 + 1
         \<and> d \<notin> id_num ` set (run items_db (take k rs))"
proof -
  let ?db = "run items_db (take k rs)"
  from assms have "created_id (rs ! k, fst (handle ?db (rs ! k))) = Some d"
    by (simp add: trace_nth)
  then have d: "d = max_default (map id_num ?db) 0 + 1"
    by (simp add: created_id_handle split: request.splits)
  have "\<forall>it \<in> set ?db. id_num it < d"
  proof
    fix it assume "it \<in> set ?db"
    then have "id_num it \<in> set (map id_num ?db)" by simp
    from max_default_ge [OF this, of 0] d show "id_num it < d" by simp
  qed
  moreover from d new_id_fresh [of ?db] have "d \<notin> id_num ` set ?db" by simp
  ultimately show ?thesis using d by blast
qed

theorem created_id_exceeds_store_witness:
  "created_id (trace items_db [Delete 3, Create (ItemCreate_new ''Monitor'' None 350 None)] ! 1)
     = Some 3
   \<and> id_num (last (run items_db [Delete 3])) < 3
   \<and> (3::int) \<notin> id_num ` set (run items_db [Delete 3])"
proof -
  let ?rs = "[Delete 3, Create (ItemCreate_new ''Monitor'' None 350 None)]"
  have k: "(1::nat) < length ?rs" by simp
  have c: "created_id (trace items_db ?rs ! 1) = Some 3"
    by (simp add: created_id_def handle_def create_item_def Let_def Item_of_def
        delete_item_def list_pop_def items_db_def)
  have t: "take 1 ?rs = [Delete 3]" by simp
  have l: "last (run items_db [Delete 3]) \<in> set (run items_db [Delete 3])"
    by (simp add: handle_def delete_item_def list_pop_def items_db_def)
  from created_id_exceeds_store [OF k c] l c show ?thesis unfolding t by blast
qed

text \<open>
  C5 as first stated, that no Create assigns an id of an item deleted before, fails:
  from the seed state, deleting item 3 and creating an item assigns id 3 again.
\<close>

theorem reuse_after_delete:
  "reuses_deleted_id
     (trace items_db [Delete 3, Create (ItemCreate_new ''Monitor'' None 350 None)])"
proof -
  let ?evs = "trace items_db [Delete 3, Create (ItemCreate_new ''Monitor'' None 350 None)]"
  have c: "created_id (?evs ! 1) = Some 3"
    by (simp add: created_id_def handle_def create_item_def Let_def Item_of_def
        delete_item_def list_pop_def items_db_def)
  have d: "deleted_id (?evs ! 0) = Some 3"
    by (simp add: deleted_id_def handle_def delete_item_def list_pop_def items_db_def)
  have "(1::nat) \<in> {..<length ?evs}" "(0::nat) \<in> {..<1}" by simp_all
  with c d show ?thesis unfolding reuses_deleted_id_def by (metis option.distinct(1))
qed

text \<open>
  C6, as amended. After every sequence of requests from the seed state, Get returns an
  item with the given id exactly when the id is one of the seed ids 1, 2, 3 and no Delete
  has removed it, or some earlier Create produced the id and no later Delete removed it.
  Started from the empty store, the second alternative alone decides. Update leaves the
  ids of the stored items as they are.
\<close>

theorem get_item_iff_history:
  "((\<exists>it. fst (get_item (run items_db rs) i) = Inr it \<and> id_num it = i) \<longleftrightarrow>
      (i \<in> {1, 2, 3} \<and> never_deleted (trace items_db rs) i)
      \<or> live_by_history (trace items_db rs) i)
   \<and> ((\<exists>it. fst (get_item (run [] rs) i) = Inr it \<and> id_num it = i) \<longleftrightarrow>
        live_by_history (trace [] rs) i)
   \<and> map id_num (snd (update_item db j x)) = map id_num db"
proof -
  have s: "i \<in> id_num ` set items_db \<longleftrightarrow> i \<in> {1, 2, 3}"
    by (auto simp: items_db_def)
  have a: "(\<exists>it. fst (get_item (run items_db rs) i) = Inr it \<and> id_num it = i) \<longleftrightarrow>
      (i \<in> {1, 2, 3} \<and> never_deleted (trace items_db rs) i)
      \<or> live_by_history (trace items_db rs) i"
    using present_iff_history [OF items_db_distinct, of i rs]
    by (simp only: get_item_returns_iff s)
  have "distinct (map id_num ([] :: Item list))" by simp
  from present_iff_history [OF this, of i rs]
  have b: "(\<exists>it. fst (get_item (run [] rs) i) = Inr it \<and> id_num it = i) \<longleftrightarrow>
        live_by_history (trace [] rs) i"
    by (simp add: get_item_returns_iff)
  from a b ids_update_item [of db j x] show ?thesis by blast
qed

theorem get_item_iff_history_witness:
  "live_by_history (trace items_db [Delete 3, Create (ItemCreate_new ''Monitor'' None 350 None)]) 3
   \<and> \<not> isl (fst (get_item
        (run items_db [Delete 3, Create (ItemCreate_new ''Monitor'' None 350 None)]) 3))"
proof -
  let ?rs = "[Delete 3, Create (ItemCreate_new ''Monitor'' None 350 None)]"
  have c: "created_id (trace items_db ?rs ! 1) = Some 3"
    by (simp add: created_id_def handle_def create_item_def Let_def Item_of_def
        delete_item_def list_pop_def items_db_def)
  have l: "live_by_history (trace items_db ?rs) 3"
    unfolding live_by_history_def
  proof (rule bexI [of _ 1])
    show "created_id (trace items_db ?rs ! 1) = Some 3 \<and>
      (\<forall>j \<in> {..<length (trace items_db ?rs)}. 1 < j \<longrightarrow>
         deleted_id (trace items_db ?rs ! j) \<noteq> Some 3)"
      using c by (simp add: length_trace del: trace.simps)
    show "1 \<in> {..<length (trace items_db ?rs)}" by (simp add: length_trace del: trace.simps)
  qed
  from get_item_iff_history [of ?rs 3 items_db 1 "ItemCreate_new ''Monitor'' None 350 None"] l
  have "\<exists>it. fst (get_item (run items_db ?rs) 3) = Inr it \<and> id_num it = 3" by blast
  then have "\<not> isl (fst (get_item (run items_db ?rs) 3))" by auto
  with l show ?thesis by blast
qed

text \<open>
  C6 as first stated, with Creates as the only origin of an item, fails in the seed
  state: Get returns item 1 before any request has been served.
\<close>

theorem seed_item_without_create:
  "\<not> isl (fst (get_item (run items_db []) 1)) \<and> \<not> live_by_history (trace items_db []) 1"
  by (simp add: get_item_def items_db_def live_by_history_def)

text \<open>
  C7. For every store and every body, Get on the id that Create returned succeeds and
  returns the created item, whose fields are those of the body together with that id;
  Get leaves the store as Create left it.
\<close>

theorem create_then_get:
  "get_item (snd (create_item db x)) (id_num (fst (create_item db x))) =
     (Inr (fst (create_item db x)), snd (create_item db x))
   \<and> fst (create_item db x) =
       \<lparr>id_num = id_num (fst (create_item db x)),
        name = ItemCreate.name x,
        description = ItemCreate.description x,
        price = ItemCreate.price x,
        in_stock = ItemCreate.in_stock x\<rparr>"
proof -
  let ?n = "max_default (map id_num db) 0 + 1"
  have "find_item db ?n = None"
    using new_id_fresh [of db] by (simp add: find_item_None)
  then have "find_item (db @ [Item_of ?n x]) ?n = Some (Item_of ?n x)"
    by (simp add: find_item_append Item_of_def)
  then have "get_item (snd (create_item db x)) (id_num (fst (create_item db x))) =
     (Inr (fst (create_item db x)), snd (create_item db x))"
    by (simp add: create_item_def Let_def get_item_def Item_of_def)
  moreover have "fst (create_item db x) =
       \<lparr>id_num = id_num (fst (create_item db x)),
        name = ItemCreate.name x,
        description = ItemCreate.description x,
        price = ItemCreate.price x,
        in_stock = ItemCreate.in_stock x\<rparr>"
    by (simp add: create_item_def Let_def Item_of_def)
  ultimately show ?thesis by blast
qed

text \<open>
  C8, as amended. The seed items have non-empty names, and the handlers store the name
  they are given: after every sequence of requests from the seed state in which every
  Create and Update carries a non-empty name, every stored item has a non-empty name.
\<close>

theorem names_nonempty_when_given_nonempty:
  assumes "\<forall>r \<in> set rs. \<forall>i x. (r = Create x \<or> r = Update i x) \<longrightarrow> ItemCreate.name x \<noteq> []"
  shows "\<forall>it \<in> set (run items_db rs). Item.name it \<noteq> []"
proof -
  have "\<forall>it \<in> set items_db. Item.name it \<noteq> []" by (simp add: items_db_def)
  from run_names [OF this assms] show ?thesis .
qed

theorem names_nonempty_when_given_nonempty_witness:
  "Item.name (last (run items_db [Create (ItemCreate_new ''Monitor'' None 350 None), Delete 2]))
     \<noteq> []"
proof -
  let ?rs = "[Create (ItemCreate_new ''Monitor'' None 350 None), Delete 2]"
  have h: "\<forall>r \<in> set ?rs. \<forall>i x. (r = Create x \<or> r = Update i x) \<longrightarrow> ItemCreate.name x \<noteq> []"
    by (simp add: ItemCreate_new_def)
  have l: "last (run items_db ?rs) \<in> set (run items_db ?rs)"
    by (simp add: handle_def create_item_def Let_def Item_of_def delete_item_def
        list_pop_def items_db_def)
  from names_nonempty_when_given_nonempty [OF h] l show ?thesis by blast
qed

text \<open>
  C8 as first stated, that the store never holds an item with an empty name, fails:
  Create and Update accept the empty name and store it.
\<close>

theorem empty_name_is_stored:
  "Item.name (fst (create_item items_db (ItemCreate_new [] None 1 None))) = []
   \<and> last (snd (create_item items_db (ItemCreate_new [] None 1 None))) =
       fst (create_item items_db (ItemCreate_new [] None 1 None))
   \<and> Item.name (last (run items_db [Create (ItemCreate_new [] None 1 None)])) = []
   \<and> Item.name (hd (run items_db [Update 1 (ItemCreate_new [] None 1 None)])) = []"
  by (simp add: create_item_def Let_def Item_of_def ItemCreate_new_def handle_def
      update_item_def list_set_def items_db_def)

text \<open>
  C9. List and Get return the store as they found it, for every store and every id,
  whether or not an item has that id.
\<close>

theorem reads_do_not_mutate:
  "snd (get_items db) = db \<and> snd (get_item db i) = db
   \<and> snd (handle db List) = db \<and> snd (handle db (Get i)) = db"
  by (simp add: get_items_def get_item_def handle_def split: option.splits)

text \<open>
  C10. Applying Update twice with the same id and body gives the same store and the same
  answer as applying it once; when an item has the id, that answer is the updated item.
\<close>

theorem update_item_idempotent:
  "update_item (snd (update_item db i x)) i x = update_item db i x
   \<and> (i \<in> id_num ` set db \<longrightarrow>
        (\<exists>it. fst (update_item db i x) = Inr it
           \<and> fst (update_item (snd (update_item db i x)) i x) = Inr it))"
proof (cases "i \<in> id_num ` set db")
  case False
  then show ?thesis by (simp add: update_item_absent)
next
  case True
  let ?new = "Item_of i x"
  from update_item_present [OF True, of x] obtain idx where
    h: "idx < length db" "id_num (db ! idx) = i" "\<forall>j < idx. id_num (db ! j) \<noteq> i"
       "update_item db i x = (Inr ?new, db[idx := ?new])" by blast
  let ?db' = "db[idx := ?new]"
  have ids: "map id_num ?db' = map id_num db"
    using ids_update_item [of db i x] h(4) by simp
  then have "set (map id_num ?db') = set (map id_num db)" by simp
  with True have "i \<in> id_num ` set ?db'" by (simp del: set_map add: set_map [symmetric])
  from update_item_present [OF this, of x] obtain idx' where
    h': "idx' < length ?db'" "id_num (?db' ! idx') = i" "\<forall>j < idx'. id_num (?db' ! j) \<noteq> i"
        "update_item ?db' i x = (Inr ?new, ?db'[idx' := ?new])" by blast
  have same: "id_num (?db' ! j) = id_num (db ! j)" if "j < length db" for j
  proof -
    from that have "id_num (?db' ! j) = map id_num ?db' ! j" by simp
    also have "\<dots> = map id_num db ! j" by (simp only: ids)
    also from that have "\<dots> = id_num (db ! j)" by simp
    finally show ?thesis .
  qed
  have "idx' = idx"
  proof (rule linorder_cases [of idx' idx])
    assume l: "idx' < idx"
    with h(1) have "idx' < length db" by simp
    from same [OF this] h'(2) have "id_num (db ! idx') = i" by simp
    with h(3) l show ?thesis by blast
  next
    assume l: "idx < idx'"
    from same [OF h(1)] h(2) have "id_num (?db' ! idx) = i" by simp
    with h'(3) l show ?thesis by blast
  qed simp
  with h'(4) have "update_item ?db' i x = (Inr ?new, ?db')" by simp
  with h(4) show ?thesis by simp
qed

theorem update_item_idempotent_witness:
  "(2::int) \<in> id_num ` set items_db
   \<and> update_item (snd (update_item items_db 2 (ItemCreate_new ''Pad'' None 5 None))) 2
        (ItemCreate_new ''Pad'' None 5 None)
      = update_item items_db 2 (ItemCreate_new ''Pad'' None 5 None)
   \<and> \<not> isl (fst (update_item items_db 2 (ItemCreate_new ''Pad'' None 5 None)))"
proof -
  have m: "(2::int) \<in> id_num ` set items_db" by (simp add: items_db_def)
  from update_item_idempotent [of items_db 2 "ItemCreate_new ''Pad'' None 5 None"] m
  show ?thesis by auto
qed

end
